theory Spec2Isabelle
  imports Main "HOL-Library.Word"
begin

section \<open>The Enterprise Encryption Module (class EnterpriseEncryptionModule)\<close>

text \<open>
  A shallow embedding of the encryption module's methods. JavaScript strings are lists
  of UTF-16 code units, typed arrays of bytes are lists of 8-bit words. A method that
  can throw returns a sum, with the thrown error on the left. The browser functions
  the class calls and that are not arithmetic on strings (Web Crypto, TextEncoder and
  TextDecoder, JSON, Number formatting, the storage quota) are the fields of a record
  of platform functions that every method takes as its first argument; \<open>btoa\<close>,
  \<open>atob\<close>, \<open>String.fromCharCode\<close> and \<open>charCodeAt\<close> are defined here, since the
  claims turn on what they accept.
\<close>

subsection \<open>Strings, bytes and errors\<close>

type_synonym byte = "8 word"
type_synonym jschar = "16 word"
type_synonym jsstring = "jschar list"

text \<open>A string literal of the source, as code units.\<close>

definition str :: "string \<Rightarrow> jsstring" where
  "str s = map of_char s"

datatype error =
    NotInitialized
  | TypeError
  | InvalidCharacterError
  | SyntaxError
  | OperationError
  | QuotaExceededError

text \<open>
  \<open>String.fromCharCode.apply(null, output)\<close>: each number is reduced to 16 bits
  (ToUint16), which is what \<open>of_nat\<close> into a 16-bit word does.
\<close>

definition String_fromCharCode :: "nat list \<Rightarrow> jsstring" where
  "String_fromCharCode codes = map of_nat codes"

definition charCodes :: "jsstring \<Rightarrow> nat list" where
  "charCodes s = map unat s"

subsection \<open>btoa and atob\<close>

definition base64_alphabet :: string where
  "base64_alphabet = ''ABCDEFGHIJKLMNOPQRSTUVWXYZabcdefghijklmnopqrstuvwxyz0123456789+/''"

definition b64char :: "nat \<Rightarrow> jschar" where
  "b64char n = of_char (base64_alphabet ! n)"

definition b64pad :: jschar where
  "b64pad = of_char CHR ''=''"

text \<open>The 6-bit groups of a byte sequence; the last group is filled with zero bits.\<close>

fun b64_sextets :: "nat list \<Rightarrow> nat list" where
  "b64_sextets [] = []"
| "b64_sextets [a] = [a div 4, (a mod 4) * 16]"
| "b64_sextets [a, b] = [a div 4, (a mod 4) * 16 + b div 16, (b mod 16) * 4]"
| "b64_sextets (a # b # c # rest) =
     [a div 4, (a mod 4) * 16 + b div 16, (b mod 16) * 4 + c div 64, c mod 64]
       @ b64_sextets rest"

definition btoa_bytes :: "nat list \<Rightarrow> jsstring" where
  "btoa_bytes bs =
     map b64char (b64_sextets bs) @ replicate ((3 - length bs mod 3) mod 3) b64pad"

text \<open>\<open>btoa\<close> throws InvalidCharacterError when a code unit is above 255.\<close>

definition btoa :: "jsstring \<Rightarrow> error + jsstring" where
  "btoa s =
     (if \<exists>c \<in> set s. 255 < unat c then Inl InvalidCharacterError
      else Inr (btoa_bytes (charCodes s)))"

definition b64index :: "jschar \<Rightarrow> nat option" where
  "b64index c =
     (let n = unat c in
      if 65 \<le> n \<and> n \<le> 90 then Some (n - 65)
      else if 97 \<le> n \<and> n \<le> 122 then Some (n - 71)
      else if 48 \<le> n \<and> n \<le> 57 then Some (n + 4)
      else if n = 43 then Some 62
      else if n = 47 then Some 63
      else None)"

definition ascii_whitespace :: "jschar \<Rightarrow> bool" where
  "ascii_whitespace c = (unat c \<in> {9, 10, 12, 13, 32})"

text \<open>
  Forgiving base64 decoding, step 2: when the length is a multiple of four, one or two
  trailing \<open>=\<close> are removed.
\<close>

definition strip_padding :: "jsstring \<Rightarrow> jsstring" where
  "strip_padding d =
     (if length d mod 4 = 0 \<and> d \<noteq> [] \<and> last d = b64pad then
        (let d1 = butlast d in
         if d1 \<noteq> [] \<and> last d1 = b64pad then butlast d1 else d1)
      else d)"

fun atob_sextets :: "nat list \<Rightarrow> nat list" where
  "atob_sextets (a # b # c # d # rest) =
     [a * 4 + b div 16, (b mod 16) * 16 + c div 4, (c mod 4) * 64 + d] @ atob_sextets rest"
| "atob_sextets [a, b, c] = [a * 4 + b div 16, (b mod 16) * 16 + c div 4]"
| "atob_sextets [a, b] = [a * 4 + b div 16]"
| "atob_sextets _ = []"

definition atob :: "jsstring \<Rightarrow> error + jsstring" where
  "atob s =
     (let d = strip_padding (filter (\<lambda>c. \<not> ascii_whitespace c) s) in
      if length d mod 4 = 1 then Inl InvalidCharacterError
      else if \<exists>c \<in> set d. b64index c = None then Inl InvalidCharacterError
      else Inr (String_fromCharCode (atob_sextets (map (\<lambda>c. the (b64index c)) d))))"

subsection \<open>compress and decompress\<close>

text \<open>
  \<open>const dict = {}\<close> in \<open>compress\<close> is a plain object keyed by strings, so a lookup
  also finds the properties inherited from \<open>Object.prototype\<close>.
\<close>

definition Object_prototype_keys :: "jsstring list" where
  "Object_prototype_keys = map str
     [''constructor'', ''hasOwnProperty'', ''isPrototypeOf'', ''propertyIsEnumerable'',
      ''toLocaleString'', ''toString'', ''valueOf'', ''__proto__'',
      ''__defineGetter__'', ''__defineSetter__'', ''__lookupGetter__'', ''__lookupSetter__'']"

text \<open>\<open>dict[combined] !== undefined\<close>\<close>

definition dict_defined :: "(jsstring \<rightharpoonup> nat) \<Rightarrow> jsstring \<Rightarrow> bool" where
  "dict_defined dict k = (dict k \<noteq> None \<or> k \<in> set Object_prototype_keys)"

text \<open>
  \<open>phrase.length > 1 ? dict[phrase] : phrase.charCodeAt(0)\<close>, as the number that
  \<open>String.fromCharCode\<close> later sees: an inherited property is a function or an object,
  which converts to NaN and so to code unit 0.
\<close>

definition emit :: "(jsstring \<rightharpoonup> nat) \<Rightarrow> jsstring \<Rightarrow> nat" where
  "emit dict phrase =
     (if 1 < length phrase then (case dict phrase of Some c \<Rightarrow> c | None \<Rightarrow> 0)
      else unat (hd phrase))"

text \<open>
  The \<open>for\<close> loop of \<open>compress\<close> over \<open>data[1], data[2], ...\<close>; it returns the
  dictionary, the output array and the current phrase.
\<close>

fun compress_loop ::
  "(jsstring \<rightharpoonup> nat) \<Rightarrow> nat list \<Rightarrow> jsstring \<Rightarrow> nat \<Rightarrow> jsstring
     \<Rightarrow> (jsstring \<rightharpoonup> nat) \<times> nat list \<times> jsstring" where
  "compress_loop dict output phrase code [] = (dict, output, phrase)"
| "compress_loop dict output phrase code (currChar # rest) =
     (let combined = phrase @ [currChar] in
      if dict_defined dict combined then compress_loop dict output combined code rest
      else compress_loop (dict(combined \<mapsto> code)) (output @ [emit dict phrase])
             [currChar] (code + 1) rest)"

text \<open>
  \<open>data[0]\<close> of the empty string is \<open>undefined\<close>, the loop does not run, and
  \<open>phrase.length\<close> throws a TypeError.
\<close>

definition compress :: "jsstring \<Rightarrow> error + jsstring" where
  "compress data =
     (case data of
        [] \<Rightarrow> Inl TypeError
      | c # rest \<Rightarrow>
          (case compress_loop Map.empty [] [c] 256 rest of
             (dict, output, phrase) \<Rightarrow>
               btoa (String_fromCharCode (output @ [emit dict phrase]))))"

text \<open>
  The state of the dictionary for as long as the loop has emitted single characters
  only: every key is a pair of characters, and every code is one the loop handed out.
\<close>

definition pairs_only :: "(jsstring \<rightharpoonup> nat) \<Rightarrow> nat \<Rightarrow> bool" where
  "pairs_only dict code =
     (256 \<le> code \<and> (\<forall>k c. dict k = Some c \<longrightarrow> length k = 2 \<and> 256 \<le> c \<and> c < code))"

text \<open>\<open>s[0]\<close> inside a string concatenation: \<open>undefined\<close> prints as text.\<close>

definition first_char :: "jsstring \<Rightarrow> jsstring" where
  "first_char s = (case s of [] \<Rightarrow> str ''undefined'' | c # _ \<Rightarrow> [c])"

fun decompress_loop ::
  "(nat \<rightharpoonup> jsstring) \<Rightarrow> nat \<Rightarrow> jsstring \<Rightarrow> jsstring list \<Rightarrow> nat list \<Rightarrow> jsstring list" where
  "decompress_loop dict code phrase output [] = output"
| "decompress_loop dict code phrase output (currCode # rest) =
     (let entry =
        (if dict currCode \<noteq> None \<and> dict currCode \<noteq> Some [] then the (dict currCode)
         else if currCode = code then phrase @ first_char phrase
         else String_fromCharCode [currCode])
      in decompress_loop (dict(code \<mapsto> phrase @ first_char entry)) (code + 1) entry
           (output @ [entry]) rest)"

text \<open>
  The \<open>try\<close> block of \<open>decompress\<close>. \<open>codes[0]\<close> of an empty array is \<open>undefined\<close>,
  which \<open>String.fromCharCode\<close> turns into code unit 0.
\<close>

definition decompress_try :: "jsstring \<Rightarrow> error + jsstring" where
  "decompress_try compressed =
     (case atob compressed of
        Inl e \<Rightarrow> Inl e
      | Inr data \<Rightarrow>
          (let codes = charCodes data;
               phrase = String_fromCharCode [case codes of [] \<Rightarrow> 0 | c # _ \<Rightarrow> c]
           in Inr (concat (decompress_loop Map.empty 256 phrase [phrase] (tl codes)))))"

text \<open>\<open>catch (error) { return compressed; }\<close>\<close>

definition decompress :: "jsstring \<Rightarrow> error + jsstring" where
  "decompress compressed =
     (case decompress_try compressed of Inl e \<Rightarrow> Inr compressed | Inr s \<Rightarrow> Inr s)"

subsection \<open>Values, the platform and the engine\<close>

text \<open>
  The values the module is handed and returns. \<open>typeof\<close> is \<open>"object"\<close> for
  \<open>null\<close>, arrays and objects; numbers and objects are left to the platform
  (types \<open>'n\<close> and \<open>'o\<close>).
\<close>

datatype ('n, 'o) jsvalue =
    JSNull
  | JSBoolean bool
  | JSNumber 'n
  | JSString jsstring
  | JSObject 'o

definition typeof :: "('n, 'o) jsvalue \<Rightarrow> string" where
  "typeof v =
     (case v of
        JSNull \<Rightarrow> ''object''
      | JSBoolean _ \<Rightarrow> ''boolean''
      | JSNumber _ \<Rightarrow> ''number''
      | JSString _ \<Rightarrow> ''string''
      | JSObject _ \<Rightarrow> ''object'')"

type_synonym storage = "jsstring \<rightharpoonup> jsstring"

text \<open>
  The browser functions the class calls. \<open>'k\<close> is the type of CryptoKey objects.
  The two \<open>subtle\<close> ciphers take the IV, the tag length in bits, the key and the data;
  \<open>storage_accepts\<close> says whether \<open>localStorage.setItem\<close> stores the item or throws
  QuotaExceededError.
\<close>

record ('k, 'n, 'o) platform =
  subtle_importKey :: "byte list \<Rightarrow> error + 'k"
  subtle_deriveKey :: "byte list \<Rightarrow> nat \<Rightarrow> 'k \<Rightarrow> error + 'k"
  subtle_encrypt :: "byte list \<Rightarrow> nat \<Rightarrow> 'k \<Rightarrow> byte list \<Rightarrow> error + byte list"
  subtle_decrypt :: "byte list \<Rightarrow> nat \<Rightarrow> 'k \<Rightarrow> byte list \<Rightarrow> error + byte list"
  TextEncoder_encode :: "jsstring \<Rightarrow> byte list"
  TextDecoder_decode :: "byte list \<Rightarrow> jsstring"
  JSON_stringify :: "('n, 'o) jsvalue \<Rightarrow> jsstring"
  JSON_parse :: "jsstring \<Rightarrow> error + ('n, 'o) jsvalue"
  Number_toString :: "'n \<Rightarrow> jsstring"
  Object_toString :: "'o \<Rightarrow> jsstring"
  storage_accepts :: "storage \<Rightarrow> jsstring \<Rightarrow> jsstring \<Rightarrow> bool"

text \<open>\<open>String(data)\<close>\<close>

definition String_of :: "('k, 'n, 'o) platform \<Rightarrow> ('n, 'o) jsvalue \<Rightarrow> jsstring" where
  "String_of P v =
     (case v of
        JSNull \<Rightarrow> str ''null''
      | JSBoolean b \<Rightarrow> (if b then str ''true'' else str ''false'')
      | JSNumber n \<Rightarrow> Number_toString P n
      | JSString s \<Rightarrow> s
      | JSObject ob \<Rightarrow> Object_toString P ob)"

text \<open>
  \<open>crypto.getRandomValues\<close> reads from a stream of random bytes, which the methods
  pass on behind what they have drawn.
\<close>

type_synonym rng = "nat \<Rightarrow> byte"

definition getRandomValues :: "nat \<Rightarrow> rng \<Rightarrow> byte list \<times> rng" where
  "getRandomValues n r = (map r [0..<n], (\<lambda>i. r (i + n)))"

text \<open>\<open>localStorage.getItem\<close> is the map's lookup; \<open>setItem\<close> can throw.\<close>

definition setItem ::
  "('k, 'n, 'o) platform \<Rightarrow> storage \<Rightarrow> jsstring \<Rightarrow> jsstring \<Rightarrow> error + storage" where
  "setItem P ls k v =
     (if storage_accepts P ls k v then Inr (ls(k \<mapsto> v)) else Inl QuotaExceededError)"

text \<open>
  The fields the constructor sets. The lengths and the iteration count are never assigned
  again; \<open>isInitialized\<close> and \<open>masterKey\<close> are, by \<open>initialize\<close>.
\<close>

definition keyDerivationIterations :: nat where "keyDerivationIterations = 100000"
definition saltLength :: nat where "saltLength = 32"
definition ivLength :: nat where "ivLength = 12"
definition tagLength :: nat where "tagLength = 16"

record 'k engine =
  isInitialized :: bool
  masterKey :: "'k option"

definition constructor :: "'k engine" where
  "constructor = \<lparr>isInitialized = False, masterKey = None\<rparr>"

subsection \<open>Utility functions\<close>

definition arrayBufferToBase64 :: "byte list \<Rightarrow> error + jsstring" where
  "arrayBufferToBase64 buffer = btoa (map ucast buffer)"

definition base64ToArrayBuffer :: "jsstring \<Rightarrow> error + byte list" where
  "base64ToArrayBuffer base64 =
     (case atob base64 of Inl e \<Rightarrow> Inl e | Inr binary \<Rightarrow> Inr (map ucast binary))"

subsection \<open>Salt, IV and key derivation\<close>

definition generateSalt :: "rng \<Rightarrow> (error + jsstring) \<times> rng" where
  "generateSalt r =
     (case getRandomValues saltLength r of (salt, r') \<Rightarrow> (arrayBufferToBase64 salt, r'))"

definition generateIV :: "rng \<Rightarrow> byte list \<times> rng" where
  "generateIV r = getRandomValues ivLength r"

definition deriveKey :: "('k, 'n, 'o) platform \<Rightarrow> jsstring \<Rightarrow> jsstring \<Rightarrow> error + 'k" where
  "deriveKey P password salt =
     (let passwordBuffer = TextEncoder_encode P password in
      case base64ToArrayBuffer salt of
        Inl e \<Rightarrow> Inl e
      | Inr saltBuffer \<Rightarrow>
          (case subtle_importKey P passwordBuffer of
             Inl e \<Rightarrow> Inl e
           | Inr keyMaterial \<Rightarrow>
               subtle_deriveKey P saltBuffer keyDerivationIterations keyMaterial))"

definition enc_salt :: jsstring where
  "enc_salt = str ''enc_salt''"

text \<open>
  \<open>initialize\<close> returns its boolean with the engine, the storage and the random
  stream as they are afterwards. \<open>!salt\<close> holds for a missing item and for the empty
  string. Whatever is thrown inside is caught and \<open>false\<close> returned.
\<close>

definition initialize ::
  "('k, 'n, 'o) platform \<Rightarrow> 'k engine \<Rightarrow> storage \<Rightarrow> rng \<Rightarrow> jsstring
     \<Rightarrow> bool \<times> 'k engine \<times> storage \<times> rng" where
  "initialize P this ls r masterPassword =
     (case
        (if ls enc_salt = None \<or> ls enc_salt = Some [] then
           (case generateSalt r of
              (Inl e, r') \<Rightarrow> (Inl e, ls, r')
            | (Inr salt, r') \<Rightarrow>
                (case setItem P ls enc_salt salt of
                   Inl e \<Rightarrow> (Inl e, ls, r')
                 | Inr ls' \<Rightarrow> (Inr salt, ls', r')))
         else (Inr (the (ls enc_salt)), ls, r))
      of
        (Inl e, ls', r') \<Rightarrow> (False, this, ls', r')
      | (Inr salt, ls', r') \<Rightarrow>
          (case deriveKey P masterPassword salt of
             Inl e \<Rightarrow> (False, this, ls', r')
           | Inr key \<Rightarrow>
               (True, this\<lparr>masterKey := Some key, isInitialized := True\<rparr>, ls', r')))"

subsection \<open>encrypt and decrypt\<close>

text \<open>\<open>typeof data === "object" ? JSON.stringify(data) : String(data)\<close>\<close>

definition dataString :: "('k, 'n, 'o) platform \<Rightarrow> ('n, 'o) jsvalue \<Rightarrow> jsstring" where
  "dataString P data =
     (if typeof data = ''object'' then JSON_stringify P data else String_of P data)"

text \<open>
  \<open>encrypt\<close> returns the envelope, or the error it throws, and the random stream. A
  \<open>null\<close> key makes \<open>crypto.subtle.encrypt\<close> throw a TypeError.
\<close>

definition encrypt ::
  "('k, 'n, 'o) platform \<Rightarrow> 'k engine \<Rightarrow> rng \<Rightarrow> ('n, 'o) jsvalue \<Rightarrow> bool
     \<Rightarrow> (error + jsstring) \<times> rng" where
  "encrypt P this r data compress_flag =
     (if \<not> isInitialized this then (Inl NotInitialized, r)
      else
        (case (if compress_flag then compress (dataString P data)
               else Inr (dataString P data)) of
           Inl e \<Rightarrow> (Inl e, r)
         | Inr processedData \<Rightarrow>
             (case generateIV r of
                (iv, r') \<Rightarrow>
                  (let dataBuffer = TextEncoder_encode P processedData in
                   case masterKey this of
                     None \<Rightarrow> (Inl TypeError, r')
                   | Some key \<Rightarrow>
                       (case subtle_encrypt P iv (tagLength * 8) key dataBuffer of
                          Inl e \<Rightarrow> (Inl e, r')
                        | Inr encryptedBuffer \<Rightarrow>
                            (arrayBufferToBase64 (iv @ encryptedBuffer), r'))))))"

text \<open>
  What \<open>decrypt\<close> does with the buffer that \<open>crypto.subtle.decrypt\<close> returned: decode,
  decompress if asked, and try \<open>JSON.parse\<close>; when that throws, the text itself is
  returned as a string.
\<close>

definition decode_plaintext ::
  "('k, 'n, 'o) platform \<Rightarrow> bool \<Rightarrow> byte list \<Rightarrow> error + ('n, 'o) jsvalue" where
  "decode_plaintext P decompress_flag decryptedBuffer =
     (case
        (if decompress_flag then decompress (TextDecoder_decode P decryptedBuffer)
         else Inr (TextDecoder_decode P decryptedBuffer))
      of
        Inl e \<Rightarrow> Inl e
      | Inr decryptedData \<Rightarrow>
          (case JSON_parse P decryptedData of
             Inl e \<Rightarrow> Inr (JSString decryptedData)
           | Inr v \<Rightarrow> Inr v))"

definition decrypt ::
  "('k, 'n, 'o) platform \<Rightarrow> 'k engine \<Rightarrow> jsstring \<Rightarrow> bool \<Rightarrow> error + ('n, 'o) jsvalue" where
  "decrypt P this encryptedData decompress_flag =
     (if \<not> isInitialized this then Inl NotInitialized
      else
        (case base64ToArrayBuffer encryptedData of
           Inl e \<Rightarrow> Inl e
         | Inr combined \<Rightarrow>
             (let iv = take ivLength combined;
                  ciphertext = drop ivLength combined
              in
              case masterKey this of
                None \<Rightarrow> Inl TypeError
              | Some key \<Rightarrow>
                  (case subtle_decrypt P iv (tagLength * 8) key ciphertext of
                     Inl e \<Rightarrow> Inl e
                   | Inr decryptedBuffer \<Rightarrow>
                       decode_plaintext P decompress_flag decryptedBuffer))))"

subsection \<open>The secure storage wrappers\<close>

definition sec_key :: "jsstring \<Rightarrow> jsstring" where
  "sec_key k = str ''sec_'' @ k"

definition secureStore ::
  "('k, 'n, 'o) platform \<Rightarrow> 'k engine \<Rightarrow> storage \<Rightarrow> rng \<Rightarrow> jsstring \<Rightarrow> ('n, 'o) jsvalue
     \<Rightarrow> bool \<times> storage \<times> rng" where
  "secureStore P this ls r k v =
     (case encrypt P this r v True of
        (Inl e, r') \<Rightarrow> (False, ls, r')
      | (Inr encrypted, r') \<Rightarrow>
          (case setItem P ls (sec_key k) encrypted of
             Inl e \<Rightarrow> (False, ls, r')
           | Inr ls' \<Rightarrow> (True, ls', r')))"

text \<open>
  \<open>secureRetrieve\<close> returns \<open>null\<close> for a missing or empty item, and \<open>null\<close> again
  from its \<open>catch\<close> block.
\<close>

definition secureRetrieve ::
  "('k, 'n, 'o) platform \<Rightarrow> 'k engine \<Rightarrow> storage \<Rightarrow> jsstring \<Rightarrow> ('n, 'o) jsvalue" where
  "secureRetrieve P this ls k =
     (case ls (sec_key k) of
        None \<Rightarrow> JSNull
      | Some encrypted \<Rightarrow>
          (if encrypted = [] then JSNull
           else
             (case decrypt P this encrypted True of
                Inl e \<Rightarrow> JSNull
              | Inr decrypted \<Rightarrow> decrypted)))"

subsection \<open>The record format of the specification\<close>

text \<open>
  For comparison with what \<open>secureStore\<close> persists: the stored record as the
  specification words it, \<open>{ envelope: base64-string, compressed: boolean }\<close>, as the
  JSON text that a string-valued storage would hold.
\<close>

definition spec_stored_record :: "jsstring \<Rightarrow> bool \<Rightarrow> jsstring" where
  "spec_stored_record envelope compressed =
     str ''{\"envelope\":\"'' @ envelope @ str ''\",\"compressed\":''
       @ (if compressed then str ''true'' else str ''false'') @ str ''}''"

definition is_base64_char :: "jschar \<Rightarrow> bool" where
  "is_base64_char c = (b64index c \<noteq> None \<or> c = b64pad)"

subsection \<open>What the methods expect of the platform\<close>

text \<open>
  AES-GCM as Web Crypto provides it: decryption under the same key and IV inverts
  encryption, and the encrypted buffer is the ciphertext, as long as the plaintext,
  followed by the tag of the requested length.
\<close>

definition aes_gcm_inverse :: "('k, 'n, 'o) platform \<Rightarrow> bool" where
  "aes_gcm_inverse P =
     (\<forall>iv bits key data out. subtle_encrypt P iv bits key data = Inr out
        \<longrightarrow> subtle_decrypt P iv bits key out = Inr data)"

definition aes_gcm_appends_tag :: "('k, 'n, 'o) platform \<Rightarrow> bool" where
  "aes_gcm_appends_tag P =
     (\<forall>iv bits key data out. subtle_encrypt P iv bits key data = Inr out
        \<longrightarrow> length out = length data + bits div 8)"

subsection \<open>A small platform for concrete runs\<close>

text \<open>
  A platform on which the methods can be evaluated: keys are bytes, the cipher adds the
  key to every byte and appends a checksum as tag, text is ASCII, numbers are naturals,
  the only object is \<open>{}\<close>, and \<open>JSON.parse\<close> reads \<open>null\<close>, \<open>true\<close>, \<open>false\<close>,
  \<open>{}\<close> and unsigned integer literals as ECMAScript does and rejects the rest.
\<close>

definition demo_tag :: "byte list \<Rightarrow> nat \<Rightarrow> byte \<Rightarrow> byte list \<Rightarrow> byte list" where
  "demo_tag iv bits key ct = replicate (bits div 8) (foldr (+) (iv @ ct) key)"

definition demo_encrypt :: "byte list \<Rightarrow> nat \<Rightarrow> byte \<Rightarrow> byte list \<Rightarrow> error + byte list" where
  "demo_encrypt iv bits key data =
     (let ct = map (\<lambda>b. b + key) data in Inr (ct @ demo_tag iv bits key ct))"

definition demo_decrypt :: "byte list \<Rightarrow> nat \<Rightarrow> byte \<Rightarrow> byte list \<Rightarrow> error + byte list" where
  "demo_decrypt iv bits key buf =
     (if length buf < bits div 8 then Inl OperationError
      else
        (let ct = take (length buf - bits div 8) buf;
             tag = drop (length buf - bits div 8) buf
         in if tag = demo_tag iv bits key ct then Inr (map (\<lambda>b. b - key) ct)
            else Inl OperationError))"

function decimal :: "nat \<Rightarrow> jsstring" where
  "decimal n =
     (if n < 10 then [of_nat (48 + n)] else decimal (n div 10) @ [of_nat (48 + n mod 10)])"
  by pat_completeness auto
termination
  by (relation "measure id") auto

definition is_digit :: "jschar \<Rightarrow> bool" where
  "is_digit c = (48 \<le> unat c \<and> unat c \<le> 57)"

definition integer_literal :: "jsstring \<Rightarrow> bool" where
  "integer_literal s =
     (s \<noteq> [] \<and> list_all is_digit s \<and> (length s = 1 \<or> hd s \<noteq> of_nat 48))"

definition read_decimal :: "jsstring \<Rightarrow> nat" where
  "read_decimal s = foldl (\<lambda>acc c. acc * 10 + (unat c - 48)) 0 s"

definition demo_JSON_parse :: "jsstring \<Rightarrow> error + (nat, unit) jsvalue" where
  "demo_JSON_parse s =
     (if s = str ''null'' then Inr JSNull
      else if s = str ''true'' then Inr (JSBoolean True)
      else if s = str ''false'' then Inr (JSBoolean False)
      else if s = str ''{}'' then Inr (JSObject ())
      else if integer_literal s then Inr (JSNumber (read_decimal s))
      else Inl SyntaxError)"

definition demo_JSON_stringify :: "(nat, unit) jsvalue \<Rightarrow> jsstring" where
  "demo_JSON_stringify v =
     (case v of
        JSNull \<Rightarrow> str ''null''
      | JSBoolean b \<Rightarrow> (if b then str ''true'' else str ''false'')
      | JSNumber n \<Rightarrow> decimal n
      | JSString s \<Rightarrow> str ''\"'' @ s @ str ''\"''
      | JSObject ob \<Rightarrow> str ''{}'')"

definition demo :: "(byte, nat, unit) platform" where
  "demo =
     \<lparr>subtle_importKey = (\<lambda>pw. Inr (foldr (+) pw 0)),
      subtle_deriveKey = (\<lambda>salt iterations km. Inr (foldr (+) salt km)),
      subtle_encrypt = demo_encrypt,
      subtle_decrypt = demo_decrypt,
      TextEncoder_encode = map ucast,
      TextDecoder_decode = map ucast,
      JSON_stringify = demo_JSON_stringify,
      JSON_parse = demo_JSON_parse,
      Number_toString = decimal,
      Object_toString = (\<lambda>ob. str ''[object Object]''),
      storage_accepts = (\<lambda>ls k v. True)\<rparr>"

definition demo_ready :: "byte engine" where
  "demo_ready = \<lparr>isInitialized = True, masterKey = Some 7\<rparr>"

definition counting_rng :: rng where
  "counting_rng = (\<lambda>i. of_nat i)"

definition constant_rng :: rng where
  "constant_rng = (\<lambda>i. 0)"

section \<open>Properties\<close>

subsection \<open>Base64\<close>

lemma b64index_lt: "b64index c = Some n \<Longrightarrow> n < 64"
  by (auto simp: b64index_def Let_def split: if_splits)

lemma b64index_not_special:
  "b64index c = Some n \<Longrightarrow> c \<noteq> b64pad \<and> \<not> ascii_whitespace c"
  by (auto simp: b64index_def Let_def b64pad_def ascii_whitespace_def split: if_splits)

lemma b64index_b64char: "n < 64 \<Longrightarrow> b64index (b64char n) = Some n"
proof -
  have "\<forall>n \<in> set [0..<64]. b64index (b64char n) = Some n"
    by code_simp
  then show "n < 64 \<Longrightarrow> b64index (b64char n) = Some n" by simp
qed

lemma b64_sextets_lt: "\<forall>b \<in> set bs. b < 256 \<Longrightarrow> \<forall>x \<in> set (b64_sextets bs). x < 64"
  by (induction bs rule: b64_sextets.induct) (auto simp: less_mult_imp_div_less)

lemma atob_sextets_b64_sextets:
  "\<forall>b \<in> set bs. b < 256 \<Longrightarrow> atob_sextets (b64_sextets bs) = bs"
  by (induction bs rule: b64_sextets.induct) (auto)

lemma length_b64_sextets:
  "length (b64_sextets bs) = 4 * (length bs div 3) + (if length bs mod 3 = 0 then 0 else length bs mod 3 + 1)"
proof (induction bs rule: b64_sextets.induct)
  case (4 a b c rest)
  have "(3 + length rest) div 3 = Suc (length rest div 3)" by simp
  moreover have "(3 + length rest) mod 3 = length rest mod 3" by simp
  ultimately show ?case using 4 by simp
qed simp_all

lemma map_b64index_b64char:
  "\<forall>x \<in> set xs. x < 64 \<Longrightarrow> map (\<lambda>c. the (b64index c)) (map b64char xs) = xs"
  by (induction xs) (simp_all add: b64index_b64char)

lemma b64char_props:
  "n < 64 \<Longrightarrow> b64char n \<noteq> b64pad \<and> \<not> ascii_whitespace (b64char n) \<and> b64index (b64char n) \<noteq> None"
  using b64index_b64char[of n] b64index_not_special[of "b64char n" n] by simp

lemma b64pad_props: "\<not> ascii_whitespace b64pad" "b64index b64pad = None"
  by (simp_all add: b64pad_def ascii_whitespace_def b64index_def)

lemma strip_padding_encoded:
  assumes "\<forall>x \<in> set xs. x < 64" and "p \<le> 2" and "(length xs + p) mod 4 = 0"
  shows "strip_padding (map b64char xs @ replicate p b64pad) = map b64char xs"
proof -
  have nl: "xs \<noteq> [] \<Longrightarrow> last (map b64char xs) \<noteq> b64pad"
    using assms(1) b64char_props by (simp add: last_map)
  consider "p = 0" | "p = 1" | "p = 2" using assms(2) by linarith
  then show ?thesis
  proof cases
    case 1
    then show ?thesis using nl by (auto simp: strip_padding_def)
  next
    case 2
    then show ?thesis using nl assms(3) by (auto simp: strip_padding_def Let_def)
  next
    case 3
    then have "replicate p b64pad = [b64pad, b64pad]" by (simp add: numeral_2_eq_2)
    then show ?thesis using assms(3) 3 by (simp add: strip_padding_def Let_def butlast_append)
  qed
qed

lemma atob_btoa_bytes:
  assumes "\<forall>b \<in> set bs. b < 256"
  shows "atob (btoa_bytes bs) = Inr (String_fromCharCode bs)"
proof -
  let ?xs = "b64_sextets bs"
  let ?p = "(3 - length bs mod 3) mod 3"
  have lt: "\<forall>x \<in> set ?xs. x < 64" using assms by (rule b64_sextets_lt)
  have nows: "filter (\<lambda>c. \<not> ascii_whitespace c) (btoa_bytes bs) = btoa_bytes bs"
    using lt b64char_props b64pad_props(1) by (auto simp: btoa_bytes_def filter_id_conv)
  have "length bs mod 3 = 0 \<or> length bs mod 3 = 1 \<or> length bs mod 3 = 2" by arith
  then have len: "(length ?xs + ?p) mod 4 = 0"
    by (auto simp: length_b64_sextets)
  have p2: "?p \<le> 2" by arith
  have strip: "strip_padding (btoa_bytes bs) = map b64char ?xs"
    unfolding btoa_bytes_def using strip_padding_encoded[OF lt p2 len] .
  have m1: "length (map b64char ?xs) mod 4 \<noteq> 1"
    unfolding length_map length_b64_sextets by (simp add: mod_Suc)
  have ok: "\<not> (\<exists>c \<in> set (map b64char ?xs). b64index c = None)"
    using lt b64char_props by auto
  have dec: "atob_sextets (map (\<lambda>c. the (b64index c)) (map b64char ?xs)) = bs"
    by (simp only: map_b64index_b64char[OF lt] atob_sextets_b64_sextets[OF assms])
  show ?thesis
    unfolding atob_def nows strip Let_def dec
    using m1 ok by simp
qed

subsection \<open>Calls on an engine that is not initialized\<close>

lemma initialize_failed_keeps_engine:
  "initialize P this ls r pw = (False, this', ls', r') \<Longrightarrow> this' = this"
  by (auto simp: initialize_def split: if_splits prod.splits sum.splits)

text \<open>
  Claim C9. On an engine whose \<open>isInitialized\<close> is false (as the constructor leaves it,
  and as it stays when \<open>initialize\<close> returns false), \<open>encrypt\<close> and \<open>decrypt\<close> throw
  the not-initialized error for every input. The result does not depend on the platform:
  no platform function is called, no random byte is drawn (the stream comes back as it
  went in), and neither method has an engine or a storage to give back changed.
\<close>

theorem not_initialized_rejected:
  assumes "\<not> isInitialized this"
  shows "encrypt P this r data compress_flag = (Inl NotInitialized, r)
       \<and> decrypt P this encryptedData decompress_flag = Inl NotInitialized
       \<and> (fst (initialize P this ls r pw) = False
            \<longrightarrow> fst (snd (initialize P this ls r pw)) = this)"
proof -
  have "fst (initialize P this ls r pw) = False
          \<Longrightarrow> fst (snd (initialize P this ls r pw)) = this"
    using initialize_failed_keeps_engine[of P this ls r pw]
    by (cases "initialize P this ls r pw") auto
  then show ?thesis
    using assms by (simp add: encrypt_def decrypt_def)
qed

theorem not_initialized_rejected_witness:
  "\<not> isInitialized (constructor :: byte engine)
   \<and> encrypt demo constructor counting_rng (JSObject ()) True
       = (Inl NotInitialized, counting_rng)
   \<and> decrypt demo constructor (str ''AAECAwQFBgcICQoL'') True = Inl NotInitialized"
  using not_initialized_rejected[of "constructor :: byte engine" demo counting_rng
          "JSObject ()" True "str ''AAECAwQFBgcICQoL''" True Map.empty "str ''pw''"]
  by (simp add: constructor_def)

subsection \<open>The empty string under compression\<close>

lemma compress_Nil: "compress [] = Inl TypeError"
  by (simp add: compress_def)

text \<open>
  Claim C10. When the serialized form of the value is the empty string, \<open>encrypt\<close> with
  compression on an initialized engine throws (a TypeError, from \<open>compress\<close> reading
  \<open>data[0]\<close> of the empty string) and returns no envelope.
\<close>

theorem encrypt_empty_compressed_throws:
  assumes "isInitialized this" and "dataString P data = []"
  shows "encrypt P this r data True = (Inl TypeError, r)"
  using assms by (simp add: encrypt_def compress_Nil)

theorem encrypt_empty_compressed_throws_witness:
  "isInitialized demo_ready \<and> dataString demo (JSString []) = []
   \<and> encrypt demo demo_ready counting_rng (JSString []) True = (Inl TypeError, counting_rng)"
proof -
  have a: "isInitialized demo_ready" by (simp add: demo_ready_def)
  have b: "dataString demo (JSString []) = []"
    by (simp add: dataString_def typeof_def String_of_def)
  show ?thesis
    using a b encrypt_empty_compressed_throws[OF a b, of counting_rng] by simp
qed

subsection \<open>compress on a repeated pair of characters\<close>

text \<open>
  Claim C2. The round trip fails inside the 8-bit alphabet: on \<open>"aaa"\<close> the encoder
  emits the dictionary code 256 for the phrase \<open>"aa"\<close>, and \<open>btoa\<close> throws on the
  character of that code, so \<open>compress\<close> returns nothing that \<open>decompress\<close> could read.
\<close>

theorem compress_aaa_throws:
  "compress (str ''aaa'') = Inl InvalidCharacterError"
  by code_simp

subsection \<open>decompress on any input\<close>

lemma atob_sextets_lt:
  "\<forall>x \<in> set xs. x < 64 \<Longrightarrow> \<forall>b \<in> set (atob_sextets xs). b < 256"
  by (induction xs rule: atob_sextets.induct) auto

lemma unat_of_nat_16: "n < 256 \<Longrightarrow> unat (of_nat n :: 16 word) = n"
  by (simp add: unat_of_nat)

lemma atob_chars_lt:
  assumes "atob s = Inr d"
  shows "\<forall>c \<in> set d. unat c < 256"
proof -
  let ?d = "strip_padding (filter (\<lambda>c. \<not> ascii_whitespace c) s)"
  let ?xs = "map (\<lambda>c. the (b64index c)) ?d"
  from assms have ok: "\<forall>c \<in> set ?d. b64index c \<noteq> None"
    and d: "d = String_fromCharCode (atob_sextets ?xs)"
    by (auto simp: atob_def Let_def split: if_splits)
  from ok have "\<forall>x \<in> set ?xs. x < 64"
    using b64index_lt by fastforce
  then have "\<forall>b \<in> set (atob_sextets ?xs). b < 256"
    by (rule atob_sextets_lt)
  then show ?thesis
    unfolding d String_fromCharCode_def by (auto simp: unat_of_nat_16)
qed

lemma decompress_loop_bytes:
  assumes "\<forall>c \<in> set codes. c < 256" and "256 \<le> code" and "\<forall>k. k < 256 \<longrightarrow> dict k = None"
  shows "concat (decompress_loop dict code phrase outp codes)
           = concat outp @ String_fromCharCode codes"
  using assms
proof (induction codes arbitrary: dict code phrase outp)
  case Nil
  then show ?case by (simp add: String_fromCharCode_def)
next
  case (Cons c codes)
  let ?entry = "String_fromCharCode [c]"
  have c: "c < 256" and rest: "\<forall>c \<in> set codes. c < 256" using Cons.prems(1) by auto
  have none: "dict c = None" using Cons.prems(3) c by simp
  have ne: "c \<noteq> code" using c Cons.prems(2) by simp
  have d': "\<forall>k. k < 256 \<longrightarrow> (dict(code \<mapsto> phrase @ first_char ?entry)) k = None"
    using Cons.prems(2,3) by auto
  have "concat (decompress_loop dict code phrase outp (c # codes))
         = concat (decompress_loop (dict(code \<mapsto> phrase @ first_char ?entry)) (code + 1)
              ?entry (outp @ [?entry]) codes)"
    using none ne by (simp add: Let_def)
  also have "\<dots> = concat (outp @ [?entry]) @ String_fromCharCode codes"
  proof (rule Cons.IH)
    show "\<forall>c \<in> set codes. c < 256" by (rule rest)
    show "256 \<le> code + 1" using Cons.prems(2) by simp
    show "\<forall>k. k < 256 \<longrightarrow> (dict(code \<mapsto> phrase @ first_char ?entry)) k = None" by (rule d')
  qed
  finally show ?case by (simp add: String_fromCharCode_def)
qed

lemma decompress_try_decoded:
  assumes "atob s = Inr d"
  shows "decompress_try s = Inr (if d = [] then [0] else d)"
proof (cases d)
  case Nil
  then show ?thesis using assms
    by (simp add: decompress_try_def charCodes_def String_fromCharCode_def)
next
  case (Cons c cs)
  have lt: "\<forall>x \<in> set (charCodes cs). x < 256"
    using atob_chars_lt[OF assms] Cons by (simp add: charCodes_def)
  have same: "String_fromCharCode (charCodes d) = d"
    by (simp add: String_fromCharCode_def charCodes_def comp_def map_idI)
  have "decompress_try s =
     Inr (concat (decompress_loop Map.empty 256 [of_nat (unat c)] [[of_nat (unat c)]] (charCodes cs)))"
    using assms Cons by (simp add: decompress_try_def charCodes_def String_fromCharCode_def Let_def)
  also have "\<dots> = Inr ([of_nat (unat c)] @ String_fromCharCode (charCodes cs))"
    using decompress_loop_bytes[OF lt, of 256 Map.empty] by simp
  also have "\<dots> = Inr (String_fromCharCode (charCodes d))"
    using Cons by (simp add: String_fromCharCode_def charCodes_def)
  finally show ?thesis using same Cons by simp
qed

text \<open>
  Claim C4, as amended. \<open>decompress\<close> never throws. When the input is not valid
  base64 (\<open>atob\<close> throws) the \<open>catch\<close> block returns the input itself; otherwise the
  result is the decoded text, character for character (every code read from \<open>atob\<close> is
  below 256, so no dictionary phrase is ever looked up), or the single character U+0000
  when the decoded text is empty.
\<close>

theorem decompress_never_throws:
  "decompress s = Inr (case atob s of Inl e \<Rightarrow> s | Inr d \<Rightarrow> if d = [] then [0] else d)"
proof (cases "atob s")
  case (Inl e)
  then show ?thesis by (simp add: decompress_def decompress_try_def)
next
  case (Inr d)
  then show ?thesis using decompress_try_decoded[OF Inr] by (simp add: decompress_def)
qed

text \<open>
  Claim C4 as stated fails: \<open>"!"\<close> is not base64 and comes back unchanged;
  \<open>"YWJjZ"\<close> and \<open>"YWJ"\<close> are \<open>compress("abc")\<close> with a character added and with one
  cut off, and come back as text, not as an error.
\<close>

theorem decompress_malformed_returns_text:
  "atob (str ''!'') = Inl InvalidCharacterError
   \<and> decompress (str ''!'') = Inr (str ''!'')
   \<and> compress (str ''abc'') = Inr (str ''YWJj'')
   \<and> decompress (str ''YWJjZ'') = Inr (str ''YWJjZ'')
   \<and> decompress (str ''YWJ'') = Inr (str ''ab'')"
  by code_simp

subsection \<open>Byte arrays and base64 text\<close>

lemma unat_ucast_byte: "unat (ucast (b :: byte) :: jschar) = unat b"
  by transfer (simp add: take_bit_nat_eq_self_iff)

lemma unat_byte_lt: "unat (b :: byte) < 256"
  using unsigned_less[of b, where 'a = nat] by simp

lemma arrayBufferToBase64_ok:
  "arrayBufferToBase64 buf = Inr (btoa_bytes (map unat buf))"
proof -
  have "\<not> 255 < unat (ucast b :: jschar)" for b :: byte
    using unat_byte_lt[of b] by (simp add: unat_ucast_byte)
  then have "\<not> (\<exists>c \<in> set (map ucast buf :: jsstring). 255 < unat c)"
    by auto
  then show ?thesis
    by (simp add: arrayBufferToBase64_def btoa_def charCodes_def unat_ucast_byte comp_def
          del: set_map)
qed

lemma ucast_ucast_byte: "(ucast (ucast (b :: byte) :: jschar) :: byte) = b"
  by (simp add: ucast_up_ucast_id is_up)

lemma base64ToArrayBuffer_btoa_bytes:
  "base64ToArrayBuffer (btoa_bytes (map unat (buf :: byte list))) = Inr buf"
proof -
  have "\<forall>b \<in> set (map unat buf). b < 256" using unat_byte_lt by auto
  then have "atob (btoa_bytes (map unat buf)) = Inr (String_fromCharCode (map unat buf))"
    by (rule atob_btoa_bytes)
  then show ?thesis
    by (simp add: base64ToArrayBuffer_def String_fromCharCode_def comp_def ucast_ucast_byte)
qed

lemma arrayBuffer_roundtrip:
  "arrayBufferToBase64 buf = Inr e \<Longrightarrow> base64ToArrayBuffer e = Inr buf"
  using base64ToArrayBuffer_btoa_bytes[of buf] by (simp add: arrayBufferToBase64_ok)

lemma b64char_is_base64: "n < 64 \<Longrightarrow> is_base64_char (b64char n)"
  by (simp add: is_base64_char_def b64index_b64char)

lemma btoa_bytes_chars:
  assumes "\<forall>b \<in> set bs. b < 256"
  shows "\<forall>c \<in> set (btoa_bytes bs). is_base64_char c"
  using b64_sextets_lt[OF assms] b64char_is_base64
  by (auto simp: btoa_bytes_def is_base64_char_def)

lemma b64_sextets_Nil_iff: "b64_sextets bs = [] \<longleftrightarrow> bs = []"
  by (cases bs rule: b64_sextets.cases) auto

lemma arrayBufferToBase64_chars:
  assumes "arrayBufferToBase64 buf = Inr e"
  shows "(\<forall>c \<in> set e. is_base64_char c) \<and> (buf \<noteq> [] \<longrightarrow> e \<noteq> [])"
proof -
  have e: "e = btoa_bytes (map unat buf)" using assms by (simp add: arrayBufferToBase64_ok)
  have "\<forall>b \<in> set (map unat buf). b < 256" using unat_byte_lt by auto
  then have "\<forall>c \<in> set e. is_base64_char c" unfolding e by (rule btoa_bytes_chars)
  moreover have "buf \<noteq> [] \<longrightarrow> e \<noteq> []"
    unfolding e by (simp add: btoa_bytes_def b64_sextets_Nil_iff)
  ultimately show ?thesis by simp
qed

lemma generateIV_eq: "generateIV r = (map r [0..<12], (\<lambda>i. r (i + 12)))"
  by (simp add: generateIV_def getRandomValues_def ivLength_def)

lemma encrypt_success:
  assumes "encrypt P this r data c = (Inr env, r')"
  shows "\<exists>key processedData encryptedBuffer.
           isInitialized this \<and> masterKey this = Some key
         \<and> (if c then compress (dataString P data) else Inr (dataString P data))
               = Inr processedData
         \<and> subtle_encrypt P (map r [0..<12]) 128 key (TextEncoder_encode P processedData)
               = Inr encryptedBuffer
         \<and> arrayBufferToBase64 (map r [0..<12] @ encryptedBuffer) = Inr env
         \<and> r' = (\<lambda>i. r (i + 12))"
  using assms
  by (auto simp: encrypt_def generateIV_eq tagLength_def Let_def
      split: if_splits sum.splits option.splits)

lemma decrypt_envelope:
  assumes "isInitialized this" and "masterKey this = Some key"
    and "base64ToArrayBuffer env = Inr (iv @ buf)" and "length iv = 12"
  shows "decrypt P this env d =
           (case subtle_decrypt P iv 128 key buf of
              Inl e \<Rightarrow> Inl e
            | Inr decryptedBuffer \<Rightarrow> decode_plaintext P d decryptedBuffer)"
  using assms by (simp add: decrypt_def ivLength_def tagLength_def Let_def)

subsection \<open>The compression loop\<close>

lemma prototype_keys_long: "k \<in> set Object_prototype_keys \<Longrightarrow> 3 < length k"
  by (auto simp: Object_prototype_keys_def str_def)

lemma compress_loop_extends:
  "compress_loop dict outp phrase code rest = (dict', outp', phrase')
     \<Longrightarrow> \<exists>ext. outp' = outp @ ext"
proof (induction rest arbitrary: dict outp phrase code)
  case Nil
  then show ?case by simp
next
  case (Cons x xs)
  show ?case
  proof (cases "dict_defined dict (phrase @ [x])")
    case True
    then show ?thesis using Cons.prems Cons.IH by (simp add: Let_def)
  next
    case False
    then have "compress_loop (dict(phrase @ [x] \<mapsto> code)) (outp @ [emit dict phrase]) [x]
                 (code + 1) xs = (dict', outp', phrase')"
      using Cons.prems by (simp add: Let_def)
    from Cons.IH[OF this] show ?thesis by auto
  qed
qed

lemma compress_loop_pair_phrase:
  assumes "pairs_only dict code" and "dict [p, q] = Some c"
    and "compress_loop dict outp [p, q] code rest = (dict', outp', phrase')"
  shows "c \<in> set (outp' @ [emit dict' phrase'])"
proof (cases rest)
  case Nil
  then show ?thesis using assms by (auto simp: emit_def)
next
  case (Cons x xs)
  have "dict [p, q, x] = None"
  proof (cases "dict [p, q, x]")
    case (Some a)
    then have "length [p, q, x] = 2" using assms(1) unfolding pairs_only_def by blast
    then show ?thesis by simp
  qed simp
  moreover have "[p, q, x] \<notin> set Object_prototype_keys"
    using prototype_keys_long[of "[p, q, x]"] by auto
  ultimately have "\<not> dict_defined dict ([p, q] @ [x])"
    by (simp add: dict_defined_def)
  then have "compress_loop (dict([p, q, x] \<mapsto> code)) (outp @ [c]) [x] (code + 1) xs
               = (dict', outp', phrase')"
    using assms(2,3) Cons by (simp add: Let_def emit_def)
  from compress_loop_extends[OF this] show ?thesis by auto
qed

lemma compress_loop_single_phrase:
  assumes "pairs_only dict code"
    and "compress_loop dict outp [p] code rest = (dict', outp', phrase')"
  shows "(\<exists>c \<in> set (outp' @ [emit dict' phrase']). 256 \<le> c \<and> c < code + length rest)
       \<or> outp' @ [emit dict' phrase'] = outp @ charCodes (p # rest)"
  using assms
proof (induction rest arbitrary: dict outp p code)
  case Nil
  then show ?case by (auto simp: emit_def charCodes_def)
next
  case (Cons x xs)
  have notproto: "[p, x] \<notin> set Object_prototype_keys"
    using prototype_keys_long[of "[p, x]"] by auto
  show ?case
  proof (cases "dict [p, x]")
    case (Some c)
    then have run: "compress_loop dict outp [p, x] code xs = (dict', outp', phrase')"
      using Cons.prems(2) by (simp add: Let_def dict_defined_def)
    have "c \<in> set (outp' @ [emit dict' phrase'])"
      using compress_loop_pair_phrase[OF Cons.prems(1) Some run] .
    moreover have "256 \<le> c \<and> c < code"
      using Cons.prems(1) Some by (auto simp: pairs_only_def)
    ultimately show ?thesis by (intro disjI1 bexI[of _ c]) auto
  next
    case None
    let ?dict = "dict([p, x] \<mapsto> code)"
    have run: "compress_loop ?dict (outp @ [unat p]) [x] (code + 1) xs = (dict', outp', phrase')"
      using Cons.prems(2) None notproto by (simp add: Let_def dict_defined_def emit_def)
    have inv: "pairs_only ?dict (code + 1)"
      using Cons.prems(1) by (auto simp: pairs_only_def less_Suc_eq)
    from Cons.IH[OF inv run] show ?thesis
      by (auto simp: charCodes_def)
  qed
qed

lemma fromCharCode_charCodes: "String_fromCharCode (charCodes s) = s"
  by (simp add: String_fromCharCode_def charCodes_def comp_def)

lemma compress_success:
  assumes "compress s = Inr y" and "length s \<le> 65280"
  shows "s \<noteq> [] \<and> (\<forall>c \<in> set s. unat c \<le> 255) \<and> y = btoa_bytes (charCodes s)"
proof (cases s)
  case Nil
  then show ?thesis using assms(1) by (simp add: compress_def)
next
  case (Cons p rest)
  obtain dict' outp' phrase' where
    run: "compress_loop Map.empty [] [p] 256 rest = (dict', outp', phrase')"
    by (cases "compress_loop Map.empty [] [p] 256 rest") auto
  let ?F = "outp' @ [emit dict' phrase']"
  have res: "btoa (String_fromCharCode ?F) = Inr y"
    using assms(1) Cons run by (simp add: compress_def)
  have inv: "pairs_only Map.empty 256" by (simp add: pairs_only_def)
  from compress_loop_single_phrase[OF inv run]
  consider c where "c \<in> set ?F" "256 \<le> c" "c < 256 + length rest"
    | "?F = charCodes s"
    using Cons by auto
  then show ?thesis
  proof cases
    case 1
    have "c < 65536" using 1(3) assms(2) Cons by simp
    then have "unat (of_nat c :: jschar) = c" by (simp add: unat_of_nat)
    then have "255 < unat (of_nat c :: jschar)" using 1(2) by simp
    moreover have "of_nat c \<in> set (String_fromCharCode ?F)"
      using 1(1) unfolding String_fromCharCode_def by (metis image_eqI set_map)
    ultimately have "btoa (String_fromCharCode ?F) = Inl InvalidCharacterError"
      unfolding btoa_def by (metis (mono_tags, lifting))
    then show ?thesis using res by simp
  next
    case 2
    then have "btoa s = Inr y" using res by (simp add: fromCharCode_charCodes)
    then show ?thesis using Cons
      by (auto simp: btoa_def not_less split: if_splits)
  qed
qed

lemma decompress_compress:
  assumes "compress s = Inr y" and "length s \<le> 65280"
  shows "decompress y = Inr s"
proof -
  from compress_success[OF assms]
  have ne: "s \<noteq> []" and lt: "\<forall>c \<in> set s. unat c \<le> 255" and y: "y = btoa_bytes (charCodes s)"
    by auto
  have "\<forall>b \<in> set (charCodes s). b < 256" using lt by (auto simp: charCodes_def)
  then have "atob y = Inr s"
    unfolding y using atob_btoa_bytes[of "charCodes s"] by (simp add: fromCharCode_charCodes)
  from decompress_try_decoded[OF this] show ?thesis
    using ne by (simp add: decompress_def)
qed

subsection \<open>Envelopes\<close>

lemma demo_fields:
  "subtle_encrypt demo = demo_encrypt" "subtle_decrypt demo = demo_decrypt"
  "TextEncoder_encode demo = map ucast" "TextDecoder_decode demo = map ucast"
  "JSON_stringify demo = demo_JSON_stringify" "JSON_parse demo = demo_JSON_parse"
  by (simp_all add: demo_def)

lemma demo_inverse: "aes_gcm_inverse demo"
  by (auto simp: aes_gcm_inverse_def demo_fields demo_encrypt_def demo_decrypt_def demo_tag_def
        Let_def comp_def)

lemma demo_appends_tag: "aes_gcm_appends_tag demo"
  by (auto simp: aes_gcm_appends_tag_def demo_fields demo_encrypt_def demo_tag_def Let_def)

lemma second_draw: "map (\<lambda>i. r (i + 12)) [0..<12] = map r [12..<24]"
proof -
  have "map (\<lambda>i. r (i + 12)) [0..<12] = map r (map (\<lambda>i. i + 12) [0..<12])"
    by (simp add: comp_def)
  also have "map (\<lambda>i. i + 12) [0..<12] = [12..<24]"
    using map_add_upt[of 12 12] by simp
  finally show ?thesis .
qed

lemma envelope_decoded:
  assumes "encrypt P this r data c = (Inr envelope, r')"
  shows "\<exists>key processedData encryptedBuffer.
           isInitialized this \<and> masterKey this = Some key
         \<and> (if c then compress (dataString P data) else Inr (dataString P data))
               = Inr processedData
         \<and> subtle_encrypt P (map r [0..<12]) 128 key (TextEncoder_encode P processedData)
               = Inr encryptedBuffer
         \<and> base64ToArrayBuffer envelope = Inr (map r [0..<12] @ encryptedBuffer)
         \<and> r' = (\<lambda>i. r (i + 12))"
  using encrypt_success[OF assms] arrayBuffer_roundtrip by blast

lemma roundtrip:
  assumes enc: "encrypt P this r v c = (Inr envelope, r')"
    and short: "c \<Longrightarrow> length (dataString P v) \<le> 65280"
    and inv: "aes_gcm_inverse P"
    and utf8: "\<And>processed.
        (if c then compress (dataString P v) else Inr (dataString P v)) = Inr processed
          \<Longrightarrow> TextDecoder_decode P (TextEncoder_encode P processed) = processed"
    and parse: "(case JSON_parse P (dataString P v) of
                   Inl e \<Rightarrow> JSString (dataString P v) | Inr w \<Rightarrow> w) = v"
  shows "decrypt P this envelope c = Inr v"
proof -
  from envelope_decoded[OF enc] obtain key pd buf where
    init: "isInitialized this" and key: "masterKey this = Some key"
    and pd: "(if c then compress (dataString P v) else Inr (dataString P v)) = Inr pd"
    and ct: "subtle_encrypt P (map r [0..<12]) 128 key (TextEncoder_encode P pd) = Inr buf"
    and dec: "base64ToArrayBuffer envelope = Inr (map r [0..<12] @ buf)"
    by blast
  have "subtle_decrypt P (map r [0..<12]) 128 key buf = Inr (TextEncoder_encode P pd)"
    using inv ct unfolding aes_gcm_inverse_def by blast
  then have d: "decrypt P this envelope c = decode_plaintext P c (TextEncoder_encode P pd)"
    using decrypt_envelope[OF init key dec, where P = P and d = c] by simp
  have plain: "(if c then decompress pd else Inr pd) = Inr (dataString P v)"
  proof (cases c)
    case True
    then show ?thesis using pd short decompress_compress[of "dataString P v" pd] by simp
  next
    case False
    then show ?thesis using pd by simp
  qed
  show ?thesis
    unfolding d decode_plaintext_def utf8[OF pd] plain
    using parse by (simp split: sum.splits)
qed

text \<open>
  Claim C6. Under Web Crypto's AES-GCM (the encrypted buffer is the ciphertext, as long
  as the plaintext, followed by the tag of the requested 128 bits), every envelope that
  \<open>encrypt\<close> returns is base64 text that decodes to the 12 bytes of the nonce drawn by
  \<open>generateIV\<close>, then the ciphertext, then 16 bytes of tag, and nothing else; and
  \<open>decrypt\<close> hands the first 12 decoded bytes to \<open>crypto.subtle.decrypt\<close> as the IV
  and all the bytes after them as the data.
\<close>

theorem envelope_layout:
  assumes enc: "encrypt P this r data c = (Inr envelope, r')"
    and tag: "aes_gcm_appends_tag P"
  shows "\<exists>key plaintext nonce ciphertext tag.
           masterKey this = Some key
         \<and> nonce = fst (generateIV r) \<and> length nonce = 12
         \<and> subtle_encrypt P nonce (tagLength * 8) key plaintext = Inr (ciphertext @ tag)
         \<and> length ciphertext = length plaintext \<and> length tag = 16
         \<and> base64ToArrayBuffer envelope = Inr (nonce @ ciphertext @ tag)
         \<and> (\<forall>d. decrypt P this envelope d =
                (case subtle_decrypt P nonce (tagLength * 8) key (ciphertext @ tag) of
                   Inl e \<Rightarrow> Inl e
                 | Inr decryptedBuffer \<Rightarrow> decode_plaintext P d decryptedBuffer))"
proof -
  let ?nonce = "map r [0..<12]"
  from envelope_decoded[OF enc] obtain key pd buf where
    init: "isInitialized this" and key: "masterKey this = Some key"
    and ct: "subtle_encrypt P ?nonce 128 key (TextEncoder_encode P pd) = Inr buf"
    and dec: "base64ToArrayBuffer envelope = Inr (?nonce @ buf)"
    by blast
  let ?pt = "TextEncoder_encode P pd"
  have len: "length buf = length ?pt + 16"
    using tag ct unfolding aes_gcm_appends_tag_def by fastforce
  let ?c = "take (length ?pt) buf" and ?t = "drop (length ?pt) buf"
  have split: "buf = ?c @ ?t" "length ?c = length ?pt" "length ?t = 16"
    using len by simp_all
  have d: "\<forall>d. decrypt P this envelope d =
                (case subtle_decrypt P ?nonce 128 key buf of
                   Inl e \<Rightarrow> Inl e
                 | Inr decryptedBuffer \<Rightarrow> decode_plaintext P d decryptedBuffer)"
    using decrypt_envelope[OF init key dec, where P = P] by simp
  show ?thesis
    apply (rule exI[of _ key], rule exI[of _ ?pt], rule exI[of _ ?nonce],
           rule exI[of _ ?c], rule exI[of _ ?t])
    using key ct dec d split
    by (simp add: generateIV_eq tagLength_def)
qed

theorem envelope_layout_witness:
  "aes_gcm_appends_tag demo
   \<and> fst (encrypt demo demo_ready counting_rng (JSObject ()) False)
        = Inr (str ''AAECAwQFBgcICQoLgoRPT09PT09PT09PT09PT09P'')
   \<and> (\<exists>key plaintext nonce ciphertext tag.
         masterKey demo_ready = Some key
       \<and> nonce = fst (generateIV counting_rng) \<and> length nonce = 12
       \<and> subtle_encrypt demo nonce (tagLength * 8) key plaintext = Inr (ciphertext @ tag)
       \<and> length ciphertext = length plaintext \<and> length tag = 16
       \<and> base64ToArrayBuffer (str ''AAECAwQFBgcICQoLgoRPT09PT09PT09PT09PT09P'')
            = Inr (nonce @ ciphertext @ tag)
       \<and> (\<forall>d. decrypt demo demo_ready (str ''AAECAwQFBgcICQoLgoRPT09PT09PT09PT09PT09P'') d =
              (case subtle_decrypt demo nonce (tagLength * 8) key (ciphertext @ tag) of
                 Inl e \<Rightarrow> Inl e
               | Inr decryptedBuffer \<Rightarrow> decode_plaintext demo d decryptedBuffer)))"
proof -
  have f: "fst (encrypt demo demo_ready counting_rng (JSObject ()) False)
             = Inr (str ''AAECAwQFBgcICQoLgoRPT09PT09PT09PT09PT09P'')"
    by code_simp
  then have e: "encrypt demo demo_ready counting_rng (JSObject ()) False
             = (Inr (str ''AAECAwQFBgcICQoLgoRPT09PT09PT09PT09PT09P''),
                snd (encrypt demo demo_ready counting_rng (JSObject ()) False))"
    by (simp add: prod_eq_iff)
  show ?thesis
    using envelope_layout[OF e demo_appends_tag] f demo_appends_tag by simp
qed

text \<open>
  Claim C1, as amended. Whenever \<open>encrypt(v, c)\<close> returns an envelope, decrypting it
  with the same flag returns \<open>v\<close>, provided that AES-GCM decryption inverts encryption,
  that the text handed to the cipher survives TextEncoder and TextDecoder, that the
  serialized form of \<open>v\<close> reads back as \<open>v\<close> (\<open>JSON.parse\<close> returns \<open>v\<close>, or \<open>v\<close> is a
  string on which \<open>JSON.parse\<close> throws), and, with compression, that the serialized form
  has at most 65280 characters (so that every dictionary code stays below 65536, where
  \<open>String.fromCharCode\<close> would wrap it into the byte range).
\<close>

theorem decrypt_encrypt_roundtrip:
  assumes "encrypt P this r v c = (Inr envelope, r')"
    and "c \<Longrightarrow> length (dataString P v) \<le> 65280"
    and "aes_gcm_inverse P"
    and "\<And>processed.
        (if c then compress (dataString P v) else Inr (dataString P v)) = Inr processed
          \<Longrightarrow> TextDecoder_decode P (TextEncoder_encode P processed) = processed"
    and "(case JSON_parse P (dataString P v) of
            Inl e \<Rightarrow> JSString (dataString P v) | Inr w \<Rightarrow> w) = v"
  shows "decrypt P this envelope c = Inr v"
  using assms by (rule roundtrip)

theorem decrypt_encrypt_roundtrip_witness:
  "fst (encrypt demo demo_ready counting_rng (JSObject ()) True)
     = Inr (str ''AAECAwQFBgcICQoLbDo3RGpqampqampqampqampqamo='')
   \<and> length (dataString demo (JSObject ())) \<le> 65280
   \<and> aes_gcm_inverse demo
   \<and> compress (dataString demo (JSObject ())) = Inr (str ''e30='')
   \<and> TextDecoder_decode demo (TextEncoder_encode demo (str ''e30='')) = str ''e30=''
   \<and> JSON_parse demo (dataString demo (JSObject ())) = Inr (JSObject ())
   \<and> decrypt demo demo_ready (str ''AAECAwQFBgcICQoLbDo3RGpqampqampqampqampqamo='') True
       = Inr (JSObject ())"
proof -
  let ?v = "JSObject () :: (nat, unit) jsvalue"
  let ?E = "str ''AAECAwQFBgcICQoLbDo3RGpqampqampqampqampqamo=''"
  have f: "fst (encrypt demo demo_ready counting_rng ?v True) = Inr ?E"
    by code_simp
  then have e: "encrypt demo demo_ready counting_rng ?v True
                  = (Inr ?E, snd (encrypt demo demo_ready counting_rng ?v True))"
    by (simp add: prod_eq_iff)
  have short: "length (dataString demo ?v) \<le> 65280"
    by (simp add: dataString_def typeof_def demo_fields demo_JSON_stringify_def str_def)
  have c: "compress (dataString demo ?v) = Inr (str ''e30='')" by code_simp
  have u: "TextDecoder_decode demo (TextEncoder_encode demo (str ''e30='')) = str ''e30=''"
    by code_simp
  have p: "JSON_parse demo (dataString demo ?v) = Inr ?v" by code_simp
  have "decrypt demo demo_ready ?E True = Inr ?v"
  proof (rule decrypt_encrypt_roundtrip[OF e _ demo_inverse])
    show "length (dataString demo ?v) \<le> 65280" by (rule short)
    show "TextDecoder_decode demo (TextEncoder_encode demo processed) = processed"
      if "(if True then compress (dataString demo ?v) else Inr (dataString demo ?v))
            = Inr processed" for processed
      using that c u by simp
    show "(case JSON_parse demo (dataString demo ?v) of
             Inl e \<Rightarrow> JSString (dataString demo ?v) | Inr w \<Rightarrow> w) = ?v"
      by (simp add: p)
  qed
  then show ?thesis using f short demo_inverse c u p by simp
qed

text \<open>
  Claim C1 as stated fails. The string \<open>"123"\<close> is encrypted as the text \<open>123\<close>, which
  \<open>decrypt\<close> parses as JSON and returns as the number 123. And with compression the
  string \<open>"aaa"\<close> yields no envelope on any platform, since \<open>compress\<close> throws.
\<close>

theorem roundtrip_counterexample:
  "fst (encrypt demo demo_ready counting_rng (JSString (str ''123'')) False)
     = Inr (str ''AAECAwQFBgcICQoLODk69PT09PT09PT09PT09PT09A=='')
   \<and> decrypt demo demo_ready (str ''AAECAwQFBgcICQoLODk69PT09PT09PT09PT09PT09A=='') False
       = Inr (JSNumber 123)
   \<and> decrypt demo demo_ready (str ''AAECAwQFBgcICQoLODk69PT09PT09PT09PT09PT09A=='') False
       \<noteq> Inr (JSString (str ''123''))
   \<and> (\<forall>P key r. fst (encrypt P \<lparr>isInitialized = True, masterKey = Some key\<rparr> r
                       (JSString (str ''aaa'')) True) = Inl InvalidCharacterError)"
proof -
  have a: "fst (encrypt demo demo_ready counting_rng (JSString (str ''123'')) False)
     = Inr (str ''AAECAwQFBgcICQoLODk69PT09PT09PT09PT09PT09A=='')"
    by code_simp
  have b: "decrypt demo demo_ready (str ''AAECAwQFBgcICQoLODk69PT09PT09PT09PT09PT09A=='') False
       = Inr (JSNumber 123)"
    by code_simp
  have "compress (str ''aaa'') = Inl InvalidCharacterError" by code_simp
  then have c: "fst (encrypt P \<lparr>isInitialized = True, masterKey = Some key\<rparr> r
                       (JSString (str ''aaa'')) True) = Inl InvalidCharacterError" for P key r
    by (simp add: encrypt_def dataString_def typeof_def String_of_def)
  have d: "decrypt demo demo_ready (str ''AAECAwQFBgcICQoLODk69PT09PT09PT09PT09PT09A=='') False
       \<noteq> Inr (JSString (str ''123''))"
    by (simp add: b)
  show ?thesis using a b c d by blast
qed

subsection \<open>Two encryptions of one value\<close>

text \<open>
  Claim C8, as amended. When two successive calls \<open>encrypt(v, c)\<close> on one engine both
  return an envelope, the first carries as nonce the next 12 bytes of the random stream
  and the second the 12 bytes after those; the envelopes differ whenever these two nonces
  differ; and under the conditions of the round trip (the serialized form reads back as
  \<open>v\<close>, decryption inverts encryption, the text survives encoding and decoding, at most
  65280 characters under compression) each of them decrypts to \<open>v\<close>.
\<close>

theorem two_encryptions:
  assumes e1: "encrypt P this r v c = (Inr env1, r1)"
    and e2: "encrypt P this r1 v c = (Inr env2, r2)"
  shows "\<exists>buf1 buf2.
           base64ToArrayBuffer env1 = Inr (map r [0..<12] @ buf1)
         \<and> base64ToArrayBuffer env2 = Inr (map r [12..<24] @ buf2)
         \<and> (map r [0..<12] \<noteq> map r [12..<24] \<longrightarrow> env1 \<noteq> env2)
         \<and> ((c \<longrightarrow> length (dataString P v) \<le> 65280)
             \<and> aes_gcm_inverse P
             \<and> (\<forall>processed.
                   (if c then compress (dataString P v) else Inr (dataString P v)) = Inr processed
                     \<longrightarrow> TextDecoder_decode P (TextEncoder_encode P processed) = processed)
             \<and> (case JSON_parse P (dataString P v) of
                   Inl e \<Rightarrow> JSString (dataString P v) | Inr w \<Rightarrow> w) = v
             \<longrightarrow> decrypt P this env1 c = Inr v \<and> decrypt P this env2 c = Inr v)"
proof -
  from envelope_decoded[OF e1] obtain buf1 where
    d1: "base64ToArrayBuffer env1 = Inr (map r [0..<12] @ buf1)"
    and r1: "r1 = (\<lambda>i. r (i + 12))"
    by blast
  from envelope_decoded[OF e2] obtain buf2 where
    "base64ToArrayBuffer env2 = Inr (map r1 [0..<12] @ buf2)"
    by blast
  then have d2: "base64ToArrayBuffer env2 = Inr (map r [12..<24] @ buf2)"
    unfolding r1 second_draw .
  have differ: "env1 \<noteq> env2" if "map r [0..<12] \<noteq> map r [12..<24]"
  proof
    assume "env1 = env2"
    then have "map r [0..<12] @ buf1 = map r [12..<24] @ buf2" using d1 d2 by simp
    moreover have "length (map r [0..<12]) = length (map r [12..<24])"
      by (simp only: length_map length_upt)
    ultimately have "map r [0..<12] = map r [12..<24]"
      by (metis append_eq_append_conv)
    then show False using that by simp
  qed
  have again: "decrypt P this env1 c = Inr v \<and> decrypt P this env2 c = Inr v"
    if "c \<longrightarrow> length (dataString P v) \<le> 65280" and "aes_gcm_inverse P"
      and "\<forall>processed.
             (if c then compress (dataString P v) else Inr (dataString P v)) = Inr processed
               \<longrightarrow> TextDecoder_decode P (TextEncoder_encode P processed) = processed"
      and "(case JSON_parse P (dataString P v) of
              Inl e \<Rightarrow> JSString (dataString P v) | Inr w \<Rightarrow> w) = v"
    using roundtrip[OF e1 _ that(2) _ that(4)] roundtrip[OF e2 _ that(2) _ that(4)] that(1,3)
    by blast
  show ?thesis using d1 d2 differ again by blast
qed

theorem two_encryptions_witness:
  "fst (encrypt demo demo_ready counting_rng (JSObject ()) False)
     = Inr (str ''AAECAwQFBgcICQoLgoRPT09PT09PT09PT09PT09P'')
   \<and> fst (encrypt demo demo_ready (snd (encrypt demo demo_ready counting_rng (JSObject ()) False))
            (JSObject ()) False)
     = Inr (str ''DA0ODxAREhMUFRYXgoTf39/f39/f39/f39/f39/f'')
   \<and> map counting_rng [0..<12] \<noteq> map counting_rng [12..<24]
   \<and> aes_gcm_inverse demo
   \<and> decrypt demo demo_ready (str ''AAECAwQFBgcICQoLgoRPT09PT09PT09PT09PT09P'') False
       = Inr (JSObject ())
   \<and> decrypt demo demo_ready (str ''DA0ODxAREhMUFRYXgoTf39/f39/f39/f39/f39/f'') False
       = Inr (JSObject ())"
proof -
  let ?v = "JSObject () :: (nat, unit) jsvalue"
  let ?E1 = "str ''AAECAwQFBgcICQoLgoRPT09PT09PT09PT09PT09P''"
  let ?E2 = "str ''DA0ODxAREhMUFRYXgoTf39/f39/f39/f39/f39/f''"
  let ?r1 = "snd (encrypt demo demo_ready counting_rng ?v False)"
  have f1: "fst (encrypt demo demo_ready counting_rng ?v False) = Inr ?E1"
    by code_simp
  have f2: "fst (encrypt demo demo_ready ?r1 ?v False) = Inr ?E2"
    by code_simp
  have e1: "encrypt demo demo_ready counting_rng ?v False = (Inr ?E1, ?r1)"
    using f1 by (simp add: prod_eq_iff)
  have e2: "encrypt demo demo_ready ?r1 ?v False
              = (Inr ?E2, snd (encrypt demo demo_ready ?r1 ?v False))"
    using f2 by (simp add: prod_eq_iff)
  have n: "map counting_rng [0..<12] \<noteq> map counting_rng [12..<24]"
    by code_simp
  have ds: "dataString demo ?v = str ''{}''" by code_simp
  have u: "TextDecoder_decode demo (TextEncoder_encode demo (str ''{}'')) = str ''{}''"
    by code_simp
  have p: "JSON_parse demo (str ''{}'') = Inr ?v" by code_simp
  from two_encryptions[OF e1 e2] n demo_inverse ds u p
  have "decrypt demo demo_ready ?E1 False = Inr ?v \<and> decrypt demo demo_ready ?E2 False = Inr ?v"
    by auto
  then show ?thesis using f1 f2 n demo_inverse by simp
qed

text \<open>
  Claim C8 as stated fails. Nothing but the random source keeps two nonces apart: on a
  stream that repeats its bytes the two envelopes are the same text. And the string
  \<open>"true"\<close> decrypts to the boolean, not to the string.
\<close>

theorem two_encryptions_counterexample:
  "fst (encrypt demo demo_ready constant_rng (JSObject ()) False)
     = Inr (str ''AAAAAAAAAAAAAAAAgoQNDQ0NDQ0NDQ0NDQ0NDQ0N'')
   \<and> fst (encrypt demo demo_ready (snd (encrypt demo demo_ready constant_rng (JSObject ()) False))
            (JSObject ()) False)
     = Inr (str ''AAAAAAAAAAAAAAAAgoQNDQ0NDQ0NDQ0NDQ0NDQ0N'')
   \<and> fst (encrypt demo demo_ready counting_rng (JSString (str ''true'')) False)
     = Inr (str ''AAECAwQFBgcICQoLe3l8bCUlJSUlJSUlJSUlJSUlJSU='')
   \<and> decrypt demo demo_ready (str ''AAECAwQFBgcICQoLe3l8bCUlJSUlJSUlJSUlJSUlJSU='') False
     = Inr (JSBoolean True)
   \<and> decrypt demo demo_ready (str ''AAECAwQFBgcICQoLe3l8bCUlJSUlJSUlJSUlJSUlJSU='') False
     \<noteq> Inr (JSString (str ''true''))"
  by code_simp

subsection \<open>secureStore and secureRetrieve\<close>

lemma envelope_chars:
  assumes "encrypt P this r v c = (Inr envelope, r')"
  shows "envelope \<noteq> [] \<and> (\<forall>ch \<in> set envelope. is_base64_char ch)"
proof -
  from encrypt_success[OF assms] obtain buf where
    "arrayBufferToBase64 (map r [0..<12] @ buf) = Inr envelope"
    by blast
  from arrayBufferToBase64_chars[OF this] show ?thesis by simp
qed

lemma spec_stored_record_first:
  "\<exists>rest. spec_stored_record e c = of_nat 123 # rest \<and> \<not> is_base64_char (of_nat 123)"
  by (simp add: spec_stored_record_def str_def is_base64_char_def b64index_def b64pad_def)

lemma base64_not_record:
  assumes "envelope \<noteq> []" and "\<forall>ch \<in> set envelope. is_base64_char ch"
  shows "envelope \<noteq> spec_stored_record e c"
proof
  assume eq: "envelope = spec_stored_record e c"
  from spec_stored_record_first[of e c] obtain rest where
    "spec_stored_record e c = of_nat 123 # rest" and no: "\<not> is_base64_char (of_nat 123 :: jschar)"
    by blast
  then have "(of_nat 123 :: jschar) \<in> set envelope" using eq by simp
  then show False using assms(2) no by blast
qed

text \<open>
  Claim C5, as amended. After every successful \<open>secureStore(key, value)\<close> the item
  stored under \<open>"sec_" + key\<close> is the envelope that \<open>encrypt(value, true)\<close> returned and
  nothing else: a non-empty string of base64 characters, which is not a record with an
  envelope and a compressed field for any content of the two. No flag is stored;
  \<open>secureStore\<close> always compresses and \<open>secureRetrieve\<close> always decompresses.
\<close>

theorem secureStore_persists_envelope:
  assumes "secureStore P this ls r k v = (True, ls', r')"
  shows "\<exists>envelope.
           encrypt P this r v True = (Inr envelope, r')
         \<and> ls' = ls(sec_key k \<mapsto> envelope)
         \<and> envelope \<noteq> [] \<and> (\<forall>ch \<in> set envelope. is_base64_char ch)
         \<and> (\<forall>e c. envelope \<noteq> spec_stored_record e c)
         \<and> secureRetrieve P this ls' k =
              (case decrypt P this envelope True of Inl e \<Rightarrow> JSNull | Inr w \<Rightarrow> w)"
proof -
  from assms obtain envelope where
    enc: "encrypt P this r v True = (Inr envelope, r')"
    and ls': "ls' = ls(sec_key k \<mapsto> envelope)"
    by (auto simp: secureStore_def setItem_def split: prod.splits sum.splits if_splits)
  from envelope_chars[OF enc] have ch: "envelope \<noteq> []" "\<forall>ch \<in> set envelope. is_base64_char ch"
    by simp_all
  have "\<forall>e c. envelope \<noteq> spec_stored_record e c"
    using base64_not_record[OF ch] by blast
  moreover have "secureRetrieve P this ls' k =
              (case decrypt P this envelope True of Inl e \<Rightarrow> JSNull | Inr w \<Rightarrow> w)"
    using ch(1) by (simp add: secureRetrieve_def ls')
  ultimately show ?thesis using enc ls' ch by blast
qed

theorem secureStore_persists_envelope_witness:
  "fst (secureStore demo demo_ready Map.empty counting_rng (str ''k'') (JSString (str ''hi'')))
   \<and> (\<exists>envelope.
         encrypt demo demo_ready counting_rng (JSString (str ''hi'')) True
           = (Inr envelope,
              snd (snd (secureStore demo demo_ready Map.empty counting_rng (str ''k'')
                          (JSString (str ''hi'')))))
       \<and> fst (snd (secureStore demo demo_ready Map.empty counting_rng (str ''k'')
                          (JSString (str ''hi''))))
           = [sec_key (str ''k'') \<mapsto> envelope]
       \<and> envelope \<noteq> [] \<and> (\<forall>ch \<in> set envelope. is_base64_char ch)
       \<and> (\<forall>e c. envelope \<noteq> spec_stored_record e c)
       \<and> secureRetrieve demo demo_ready
             (fst (snd (secureStore demo demo_ready Map.empty counting_rng (str ''k'')
                          (JSString (str ''hi''))))) (str ''k'')
           = (case decrypt demo demo_ready envelope True of Inl e \<Rightarrow> JSNull | Inr w \<Rightarrow> w))"
proof -
  let ?run = "secureStore demo demo_ready Map.empty counting_rng (str ''k'')
                (JSString (str ''hi'') :: (nat, unit) jsvalue)"
  have ok: "fst ?run" by code_simp
  then have "?run = (True, fst (snd ?run), snd (snd ?run))" by (simp add: prod_eq_iff)
  from secureStore_persists_envelope[OF this] ok show ?thesis by simp
qed

text \<open>
  Claim C5 as stated fails: the item persisted for the key \<open>"k"\<close> is the bare envelope.
\<close>

theorem secureStore_record_counterexample:
  "fst (secureStore demo demo_ready Map.empty counting_rng (str ''k'') (JSString (str ''hi'')))
   \<and> fst (snd (secureStore demo demo_ready Map.empty counting_rng (str ''k'')
                  (JSString (str ''hi'')))) (sec_key (str ''k''))
       = Some (str ''AAECAwQFBgcICQoLaE5yRLW1tbW1tbW1tbW1tbW1tbU='')
   \<and> fst (encrypt demo demo_ready counting_rng (JSString (str ''hi'')) True)
       = Inr (str ''AAECAwQFBgcICQoLaE5yRLW1tbW1tbW1tbW1tbW1tbU='')
   \<and> (\<forall>e c. str ''AAECAwQFBgcICQoLaE5yRLW1tbW1tbW1tbW1tbW1tbU='' \<noteq> spec_stored_record e c)"
proof -
  have a: "fst (secureStore demo demo_ready Map.empty counting_rng (str ''k'')
                  (JSString (str ''hi'')))"
    by code_simp
  have b: "fst (snd (secureStore demo demo_ready Map.empty counting_rng (str ''k'')
                  (JSString (str ''hi'')))) (sec_key (str ''k''))
       = Some (str ''AAECAwQFBgcICQoLaE5yRLW1tbW1tbW1tbW1tbW1tbU='')"
    by code_simp
  have c: "fst (encrypt demo demo_ready counting_rng (JSString (str ''hi'')) True)
       = Inr (str ''AAECAwQFBgcICQoLaE5yRLW1tbW1tbW1tbW1tbW1tbU='')"
    by code_simp
  have d: "str ''AAECAwQFBgcICQoLaE5yRLW1tbW1tbW1tbW1tbW1tbU='' \<noteq> spec_stored_record e c" for e c
    by (simp add: spec_stored_record_def str_def)
  show ?thesis using a b c d by blast
qed

text \<open>
  Claim C3, as amended. When the envelope stored for a key fails to decrypt,
  \<open>secureRetrieve\<close> catches the error and returns \<open>null\<close>, which is also what it
  returns when nothing is stored for the key.
\<close>

theorem secureRetrieve_hides_failure:
  assumes "ls (sec_key k) = Some envelope" and "decrypt P this envelope True = Inl err"
  shows "secureRetrieve P this ls k = JSNull
       \<and> secureRetrieve P this (ls(sec_key k := None)) k = JSNull"
  using assms by (simp add: secureRetrieve_def)

theorem secureRetrieve_hides_failure_witness:
  "[sec_key (str ''k'') \<mapsto> str ''AAECAwQFBgcICQoLaE5yRLW1tbW1tbW1tbW1tbW1tbQ='']
       (sec_key (str ''k'')) = Some (str ''AAECAwQFBgcICQoLaE5yRLW1tbW1tbW1tbW1tbW1tbQ='')
   \<and> decrypt demo demo_ready (str ''AAECAwQFBgcICQoLaE5yRLW1tbW1tbW1tbW1tbW1tbQ='') True
        = Inl OperationError
   \<and> secureRetrieve demo demo_ready
        [sec_key (str ''k'') \<mapsto> str ''AAECAwQFBgcICQoLaE5yRLW1tbW1tbW1tbW1tbW1tbQ='']
        (str ''k'') = JSNull"
proof -
  let ?E = "str ''AAECAwQFBgcICQoLaE5yRLW1tbW1tbW1tbW1tbW1tbQ=''"
  have a: "[sec_key (str ''k'') \<mapsto> ?E] (sec_key (str ''k'')) = Some ?E" by simp
  have b: "decrypt demo demo_ready ?E True = Inl OperationError" by code_simp
  show ?thesis
    using secureRetrieve_hides_failure[where ls = "[sec_key (str ''k'') \<mapsto> ?E]"
            and k = "str ''k''", OF a b] a b
    by simp
qed

text \<open>
  Claim C3 as stated fails: a record that is not base64, and an envelope with a changed
  tag, both make \<open>decrypt\<close> throw, and \<open>secureRetrieve\<close> answers \<open>null\<close> as it does
  for an empty storage.
\<close>

theorem secureRetrieve_error_counterexample:
  "decrypt demo demo_ready (str ''!!!'') True = Inl InvalidCharacterError
   \<and> secureRetrieve demo demo_ready [sec_key (str ''k'') \<mapsto> str ''!!!''] (str ''k'') = JSNull
   \<and> decrypt demo demo_ready (str ''AAECAwQFBgcICQoLaE5yRLW1tbW1tbW1tbW1tbW1tbQ='') True
        = Inl OperationError
   \<and> secureRetrieve demo demo_ready
        [sec_key (str ''k'') \<mapsto> str ''AAECAwQFBgcICQoLaE5yRLW1tbW1tbW1tbW1tbW1tbQ='']
        (str ''k'') = JSNull
   \<and> secureRetrieve demo demo_ready Map.empty (str ''k'') = JSNull"
  by code_simp

subsection \<open>The salt in initialize\<close>

lemma demo_key_fields:
  "subtle_importKey demo = (\<lambda>pw. Inr (foldr (+) pw 0))"
  "subtle_deriveKey demo = (\<lambda>salt iterations km. Inr (foldr (+) salt km))"
  "storage_accepts demo = (\<lambda>ls k v. True)"
  by (simp_all add: demo_def)

lemma generateSalt_eq:
  "generateSalt r = (arrayBufferToBase64 (map r [0..<32]), (\<lambda>i. r (i + 32)))"
  by (simp add: generateSalt_def getRandomValues_def saltLength_def)

lemma initialize_fresh_salt:
  assumes "ls enc_salt = None \<or> ls enc_salt = Some []"
  shows "initialize P this ls r pw =
           (if storage_accepts P ls enc_salt (btoa_bytes (map unat (map r [0..<32]))) then
              (case deriveKey P pw (btoa_bytes (map unat (map r [0..<32]))) of
                 Inl e \<Rightarrow>
                   (False, this, ls(enc_salt \<mapsto> btoa_bytes (map unat (map r [0..<32]))),
                    (\<lambda>i. r (i + 32)))
               | Inr key \<Rightarrow>
                   (True, this\<lparr>masterKey := Some key, isInitialized := True\<rparr>,
                    ls(enc_salt \<mapsto> btoa_bytes (map unat (map r [0..<32]))),
                    (\<lambda>i. r (i + 32))))
            else (False, this, ls, (\<lambda>i. r (i + 32))))"
proof -
  have a: "arrayBufferToBase64 (map r [0..<32]) = Inr (btoa_bytes (map unat (map r [0..<32])))"
    by (rule arrayBufferToBase64_ok)
  show ?thesis
    using assms by (simp add: initialize_def generateSalt_eq a setItem_def split: sum.splits)
qed

text \<open>
  Claim C7, as amended. When a non-empty salt is persisted under \<open>enc_salt\<close>,
  \<open>initialize\<close> leaves the storage and the random stream as they are and derives the
  key from that salt. When no item is persisted there, or the persisted item is the empty
  string (which \<open>!salt\<close> reads as no salt), it draws 32 random bytes and stores their
  base64 text under \<open>enc_salt\<close> before it derives the key from it: the stored salt is
  there whether the derivation then succeeds or throws, and when storing throws, no key is
  derived and the engine stays as it was.
\<close>

theorem initialize_salt:
  "(ls enc_salt = Some s \<and> s \<noteq> [] \<longrightarrow>
      initialize P this ls r pw =
        (case deriveKey P pw s of
           Inl e \<Rightarrow> (False, this, ls, r)
         | Inr key \<Rightarrow> (True, this\<lparr>masterKey := Some key, isInitialized := True\<rparr>, ls, r)))
   \<and> (ls enc_salt = None \<or> ls enc_salt = Some [] \<longrightarrow>
        (\<exists>salt.
           arrayBufferToBase64 (fst (getRandomValues 32 r)) = Inr salt
         \<and> length (fst (getRandomValues 32 r)) = 32
         \<and> base64ToArrayBuffer salt = Inr (fst (getRandomValues 32 r))
         \<and> initialize P this ls r pw =
             (if storage_accepts P ls enc_salt salt then
                (case deriveKey P pw salt of
                   Inl e \<Rightarrow> (False, this, ls(enc_salt \<mapsto> salt), snd (getRandomValues 32 r))
                 | Inr key \<Rightarrow>
                     (True, this\<lparr>masterKey := Some key, isInitialized := True\<rparr>,
                      ls(enc_salt \<mapsto> salt), snd (getRandomValues 32 r)))
              else (False, this, ls, snd (getRandomValues 32 r)))))"
proof (intro conjI impI)
  assume "ls enc_salt = Some s \<and> s \<noteq> []"
  then show "initialize P this ls r pw =
        (case deriveKey P pw s of
           Inl e \<Rightarrow> (False, this, ls, r)
         | Inr key \<Rightarrow> (True, this\<lparr>masterKey := Some key, isInitialized := True\<rparr>, ls, r))"
    by (simp add: initialize_def split: sum.splits)
next
  assume none: "ls enc_salt = None \<or> ls enc_salt = Some []"
  let ?bytes = "map r [0..<32]"
  let ?salt = "btoa_bytes (map unat ?bytes)"
  have g: "getRandomValues 32 r = (?bytes, (\<lambda>i. r (i + 32)))"
    by (simp add: getRandomValues_def)
  have a: "arrayBufferToBase64 ?bytes = Inr ?salt" by (rule arrayBufferToBase64_ok)
  have b: "base64ToArrayBuffer ?salt = Inr ?bytes" by (rule base64ToArrayBuffer_btoa_bytes)
  note i = initialize_fresh_salt[where ls = ls and P = P and this = this and r = r
               and pw = pw, OF none]
  show "\<exists>salt.
           arrayBufferToBase64 (fst (getRandomValues 32 r)) = Inr salt
         \<and> length (fst (getRandomValues 32 r)) = 32
         \<and> base64ToArrayBuffer salt = Inr (fst (getRandomValues 32 r))
         \<and> initialize P this ls r pw =
             (if storage_accepts P ls enc_salt salt then
                (case deriveKey P pw salt of
                   Inl e \<Rightarrow> (False, this, ls(enc_salt \<mapsto> salt), snd (getRandomValues 32 r))
                 | Inr key \<Rightarrow>
                     (True, this\<lparr>masterKey := Some key, isInitialized := True\<rparr>,
                      ls(enc_salt \<mapsto> salt), snd (getRandomValues 32 r)))
              else (False, this, ls, snd (getRandomValues 32 r)))"
    unfolding g fst_conv snd_conv
    by (rule exI[of _ ?salt]) (simp only: a b i length_map length_upt, simp)
qed

theorem initialize_salt_witness:
  "[enc_salt \<mapsto> str ''c2FsdA==''] enc_salt = Some (str ''c2FsdA=='')
   \<and> str ''c2FsdA=='' \<noteq> []
   \<and> initialize demo constructor [enc_salt \<mapsto> str ''c2FsdA==''] counting_rng (str ''pw'')
       = (True, \<lparr>isInitialized = True, masterKey = Some 155\<rparr>,
          [enc_salt \<mapsto> str ''c2FsdA==''], counting_rng)
   \<and> (Map.empty :: storage) enc_salt = None
   \<and> initialize demo constructor Map.empty counting_rng (str ''pw'')
       = (True, \<lparr>isInitialized = True, masterKey = Some 215\<rparr>,
          [enc_salt \<mapsto> str ''AAECAwQFBgcICQoLDA0ODxAREhMUFRYXGBkaGxwdHh8=''],
          snd (getRandomValues 32 counting_rng))"
proof -
  let ?old = "str ''c2FsdA==''"
  let ?new = "str ''AAECAwQFBgcICQoLDA0ODxAREhMUFRYXGBkaGxwdHh8=''"
  have b1: "base64ToArrayBuffer ?old = Inr [115, 97, 108, 116]" by code_simp
  have b2: "base64ToArrayBuffer ?new =
              Inr [0, 1, 2, 3, 4, 5, 6, 7, 8, 9, 10, 11, 12, 13, 14, 15, 16, 17, 18, 19, 20,
                   21, 22, 23, 24, 25, 26, 27, 28, 29, 30, 31]"
    by code_simp
  have k1: "deriveKey demo (str ''pw'') ?old = Inr 155"
    unfolding deriveKey_def b1 by (simp add: demo_fields demo_key_fields str_def)
  have k2: "deriveKey demo (str ''pw'') ?new = Inr 215"
    unfolding deriveKey_def b2 by (simp add: demo_fields demo_key_fields str_def)
  have s: "arrayBufferToBase64 (fst (getRandomValues 32 counting_rng)) = Inr ?new"
    by code_simp
  have acc: "storage_accepts demo ls k v" for ls k v by (simp add: demo_key_fields)
  have h1: "[enc_salt \<mapsto> ?old] enc_salt = Some ?old \<and> ?old \<noteq> []"
    by (simp add: str_def)
  have r1: "initialize demo constructor [enc_salt \<mapsto> ?old] counting_rng (str ''pw'')
       = (True, \<lparr>isInitialized = True, masterKey = Some 155\<rparr>, [enc_salt \<mapsto> ?old], counting_rng)"
    using initialize_salt[of "[enc_salt \<mapsto> ?old]" ?old demo constructor counting_rng "str ''pw''"]
      h1 k1
    by (simp add: constructor_def)
  have r2: "initialize demo constructor Map.empty counting_rng (str ''pw'')
       = (True, \<lparr>isInitialized = True, masterKey = Some 215\<rparr>, [enc_salt \<mapsto> ?new],
          snd (getRandomValues 32 counting_rng))"
    using initialize_salt[of Map.empty ?old demo constructor counting_rng "str ''pw''"]
      s k2 acc
    by (auto simp: constructor_def)
  show ?thesis using h1 r1 r2 by simp
qed

text \<open>
  Claim C7 as stated fails where the item persisted under \<open>enc_salt\<close> is the empty
  string: \<open>initialize\<close> generates a salt and overwrites the item with it.
\<close>

theorem initialize_empty_salt_regenerated:
  "[enc_salt \<mapsto> []] enc_salt = Some []
   \<and> initialize demo constructor [enc_salt \<mapsto> []] counting_rng (str ''pw'')
       = (True, \<lparr>isInitialized = True, masterKey = Some 215\<rparr>,
          [enc_salt \<mapsto> str ''AAECAwQFBgcICQoLDA0ODxAREhMUFRYXGBkaGxwdHh8=''],
          (\<lambda>i. counting_rng (i + 32)))
   \<and> fst (snd (snd (initialize demo constructor [enc_salt \<mapsto> []] counting_rng (str ''pw''))))
        enc_salt \<noteq> Some []"
proof -
  let ?new = "str ''AAECAwQFBgcICQoLDA0ODxAREhMUFRYXGBkaGxwdHh8=''"
  have b2: "base64ToArrayBuffer ?new =
              Inr [0, 1, 2, 3, 4, 5, 6, 7, 8, 9, 10, 11, 12, 13, 14, 15, 16, 17, 18, 19, 20,
                   21, 22, 23, 24, 25, 26, 27, 28, 29, 30, 31]"
    by code_simp
  have k2: "deriveKey demo (str ''pw'') ?new = Inr 215"
    unfolding deriveKey_def b2 by (simp add: demo_fields demo_key_fields str_def)
  have s: "btoa_bytes (map unat (map counting_rng [0..<32])) = ?new"
    by code_simp
  have ne: "?new \<noteq> []" by (simp add: str_def)
  have h: "[enc_salt \<mapsto> []] enc_salt = Some ([] :: jsstring)" by simp
  have run: "initialize demo constructor [enc_salt \<mapsto> []] counting_rng (str ''pw'')
       = (True, \<lparr>isInitialized = True, masterKey = Some 215\<rparr>, [enc_salt \<mapsto> ?new],
          (\<lambda>i. counting_rng (i + 32)))"
  proof -
    have "initialize demo constructor [enc_salt \<mapsto> []] counting_rng (str ''pw'') =
           (if storage_accepts demo [enc_salt \<mapsto> []] enc_salt
                 (btoa_bytes (map unat (map counting_rng [0..<32]))) then
              (case deriveKey demo (str ''pw'')
                      (btoa_bytes (map unat (map counting_rng [0..<32]))) of
                 Inl e \<Rightarrow>
                   (False, constructor,
                    [enc_salt \<mapsto> [], enc_salt \<mapsto> btoa_bytes (map unat (map counting_rng [0..<32]))],
                    (\<lambda>i. counting_rng (i + 32)))
               | Inr key \<Rightarrow>
                   (True, constructor\<lparr>masterKey := Some key, isInitialized := True\<rparr>,
                    [enc_salt \<mapsto> [], enc_salt \<mapsto> btoa_bytes (map unat (map counting_rng [0..<32]))],
                    (\<lambda>i. counting_rng (i + 32))))
            else (False, constructor, [enc_salt \<mapsto> []], (\<lambda>i. counting_rng (i + 32))))"
      by (rule initialize_fresh_salt) simp
    then show ?thesis
      unfolding s k2 by (simp add: demo_key_fields constructor_def)
  qed
  show ?thesis using h run ne by simp
qed

end
